theory Spec2Isabelle
  imports Main "HOL-Library.FSet"
begin

section \<open>Python values used by \<^verbatim>\<open>vtt_parser.py\<close>\<close>

text \<open>
  A Python \<^verbatim>\<open>str\<close> is a sequence of code points. It is modelled as a \<^typ>\<open>string\<close>, each
  \<^typ>\<open>char\<close> standing for one code point in the range U+0000 .. U+00FF. The parser treats
  every character alike except the whitespace class, the newline, the colon and the
  characters of the marker \<^verbatim>\<open>-->\<close>. The newline, the colon and the marker lie in that
  range; of the whitespace class only the part below U+0100 does, and the whitespace
  characters above it (U+1680, U+2000..U+200A, U+2028, U+2029, U+202F, U+205F, U+3000) are
  not in the model.
\<close>

datatype py_error = OSError | UnicodeDecodeError | IndexError | KeyError

text \<open>
  \<^verbatim>\<open>str.isspace\<close>, \<^verbatim>\<open>str.strip()\<close>, \<^verbatim>\<open>str.split()\<close> and the regular expression class
  \<^verbatim>\<open>\s\<close> share one whitespace class; below U+0100 it is U+0009..U+000D, U+001C..U+001F,
  U+0020, U+0085 and U+00A0.
\<close>

definition isspace :: "char \<Rightarrow> bool" where
  "isspace c = (c \<in> set [CHR 0x09, CHR 0x0A, CHR 0x0B, CHR 0x0C, CHR 0x0D,
      CHR 0x1C, CHR 0x1D, CHR 0x1E, CHR 0x1F, CHR 0x20, CHR 0x85, CHR 0xA0])"

definition lstrip :: "string \<Rightarrow> string" where
  "lstrip s = dropWhile isspace s"

definition rstrip :: "string \<Rightarrow> string" where
  "rstrip s = rev (dropWhile isspace (rev s))"

definition strip :: "string \<Rightarrow> string" where
  "strip s = rstrip (lstrip s)"

text \<open>
  \<^verbatim>\<open>s.split(sep)\<close> for a non-empty separator: scan from the left, cut at every
  occurrence of \<open>sep\<close>, occurrences not overlapping. The second argument of
  \<open>split_from\<close> is the piece collected so far. Python raises ValueError for an empty
  separator; the parser only passes the literals \<^verbatim>\<open>'\n\n'\<close>, \<^verbatim>\<open>'\n'\<close> and \<^verbatim>\<open>' --> '\<close>, and
  the model never cuts on an empty separator.
\<close>

function split_from :: "string \<Rightarrow> string \<Rightarrow> string \<Rightarrow> string list" where
  "split_from sep piece [] = [piece]"
| "split_from sep piece (c # cs) =
     (if sep \<noteq> [] \<and> take (length sep) (c # cs) = sep
      then piece # split_from sep [] (drop (length sep) (c # cs))
      else split_from sep (piece @ [c]) cs)"
  by pat_completeness auto
termination
  by (relation "measure (\<lambda>(sep, piece, s). length s)") (auto simp: neq_Nil_conv)

definition py_split :: "string \<Rightarrow> string \<Rightarrow> string list" where
  "py_split s sep = split_from sep [] s"

text \<open>\<^verbatim>\<open>s.split()\<close>: the maximal runs of non-whitespace characters.\<close>

fun split_ws_from :: "string \<Rightarrow> string \<Rightarrow> string list" where
  "split_ws_from piece [] = (if piece = [] then [] else [piece])"
| "split_ws_from piece (c # cs) =
     (if isspace c
      then (if piece = [] then split_ws_from [] cs else piece # split_ws_from [] cs)
      else split_ws_from (piece @ [c]) cs)"

definition py_split_ws :: "string \<Rightarrow> string list" where
  "py_split_ws s = split_ws_from [] s"

text \<open>\<^verbatim>\<open>sub in s\<close> on strings.\<close>

fun py_in :: "string \<Rightarrow> string \<Rightarrow> bool" where
  "py_in sub [] = (sub = [])"
| "py_in sub (c # cs) = (take (length sub) (c # cs) = sub \<or> py_in sub cs)"

text \<open>\<^verbatim>\<open>sep.join(xs)\<close>.\<close>

fun py_join :: "string \<Rightarrow> string list \<Rightarrow> string" where
  "py_join sep [] = []"
| "py_join sep [x] = x"
| "py_join sep (x # y # ys) = x @ sep @ py_join sep (y # ys)"

text \<open>
  The subscript \<^verbatim>\<open>xs[i]\<close> on a list of length \<open>n\<close>: position \<open>i\<close> for \<open>0 \<le> i < n\<close>, position
  \<open>n + i\<close> for \<open>- n \<le> i < 0\<close>, IndexError for any other \<open>i\<close>.
\<close>

definition getitem :: "'a list \<Rightarrow> int \<Rightarrow> py_error + 'a" where
  "getitem xs i =
     (if 0 \<le> i \<and> i < int (length xs) then Inr (xs ! nat i)
      else if i < 0 \<and> - int (length xs) \<le> i then Inr (xs ! nat (int (length xs) + i))
      else Inl IndexError)"

section \<open>The parser's data\<close>

text \<open>
  One entry of \<^verbatim>\<open>conversations\<close>: the dict with the keys \<^verbatim>\<open>start_time\<close>, \<^verbatim>\<open>end_time\<close>,
  \<^verbatim>\<open>speaker\<close> and \<^verbatim>\<open>text\<close> (the last field is named \<open>spoken\<close> here).
\<close>

record conversation =
  start_time :: string
  end_time :: string
  speaker :: string
  spoken :: string

text \<open>
  The dict returned by \<^verbatim>\<open>parse_vtt_file\<close>. A field is \<open>None\<close> when the dict lacks the key,
  which the two reporting methods test for. \<^verbatim>\<open>list(speakers)\<close> enumerates a Python set in
  an order the language does not fix; the field holds the finite set itself, and its
  \<^verbatim>\<open>len\<close> is the cardinality.
\<close>

record parsed_data =
  conversations :: "conversation list option"
  speakers :: "string fset option"
  total_entries :: "int option"
  file_path :: "string option"

text \<open>The instance fields assigned by \<^verbatim>\<open>__init__\<close>.\<close>

record VTTParser =
  self_speakers :: "string fset"
  self_conversations :: "conversation list"

definition init :: VTTParser where
  "init = \<lparr>self_speakers = {||}, self_conversations = []\<rparr>"

section \<open>\<^verbatim>\<open>_parse_timestamp\<close> and \<^verbatim>\<open>_extract_speaker_and_text\<close>\<close>

text \<open>
  The \<^verbatim>\<open>try\<close> reads \<^verbatim>\<open>times[0]\<close> and \<^verbatim>\<open>times[1]\<close>; the bare \<^verbatim>\<open>except\<close> turns the IndexError
  into the pair of empty strings.
\<close>

definition parse_timestamp :: "string \<Rightarrow> string \<times> string" where
  "parse_timestamp timestamp_line =
     (let times = py_split timestamp_line '' --> '' in
      case getitem times 0 of
        Inl e \<Rightarrow> ([], [])
      | Inr t0 \<Rightarrow>
          (case getitem times 1 of
             Inl e \<Rightarrow> ([], [])
           | Inr t1 \<Rightarrow> (strip t0, strip t1)))"

text \<open>
  \<^verbatim>\<open>re.match(r'^([^:]+):\s*(.+)$', s)\<close>. Group 1 is greedy over non-colon characters and
  must be followed by a colon, so it is the non-empty prefix before the first colon.
  After the colon, \<^verbatim>\<open>\s*\<close> first takes every leading whitespace character and gives them
  back one at a time; for a whitespace prefix of length \<open>k\<close>, \<^verbatim>\<open>(.+)$\<close> succeeds exactly
  when the characters from \<open>k\<close> up to the next newline are at least one and reach the end
  of the string or the newline that ends it (\<^verbatim>\<open>.\<close> does not match a newline, \<^verbatim>\<open>$\<close> matches
  at the end and before a final newline).
\<close>

definition group2_at :: "nat \<Rightarrow> string \<Rightarrow> string option" where
  "group2_at k post =
     (let t = drop k post;
          run = takeWhile (\<lambda>c. c \<noteq> CHR 0x0A) t;
          rest = dropWhile (\<lambda>c. c \<noteq> CHR 0x0A) t
      in if run \<noteq> [] \<and> (rest = [] \<or> rest = [CHR 0x0A]) then Some run else None)"

fun backtrack_ws :: "nat \<Rightarrow> string \<Rightarrow> string option" where
  "backtrack_ws 0 post = group2_at 0 post"
| "backtrack_ws (Suc k) post =
     (case group2_at (Suc k) post of
        Some g \<Rightarrow> Some g
      | None \<Rightarrow> backtrack_ws k post)"

definition re_match :: "string \<Rightarrow> (string \<times> string) option" where
  "re_match s =
     (let g1 = takeWhile (\<lambda>c. c \<noteq> CHR '':'') s;
          colon = dropWhile (\<lambda>c. c \<noteq> CHR '':'') s
      in if g1 = [] \<or> colon = [] then None
         else (case backtrack_ws (length (takeWhile isspace (tl colon))) (tl colon) of
                 None \<Rightarrow> None
               | Some g2 \<Rightarrow> Some (g1, g2)))"

definition extract_speaker_and_text :: "string \<Rightarrow> string \<times> string" where
  "extract_speaker_and_text speaker_text =
     (case re_match speaker_text of
        Some (g1, g2) \<Rightarrow> (strip g1, strip g2)
      | None \<Rightarrow> ([], speaker_text))"

section \<open>\<^verbatim>\<open>parse_vtt_file\<close>\<close>

text \<open>
  The body of the \<^verbatim>\<open>for block in blocks\<close> loop: \<open>None\<close> where the source reaches a
  \<^verbatim>\<open>continue\<close> or fails the test \<^verbatim>\<open>if speaker and text\<close>, otherwise the dict it appends.
\<close>

definition block_utterance :: "string \<Rightarrow> conversation option" where
  "block_utterance block =
     (if strip block = [] \<or> strip block = ''WEBVTT'' then None
      else let lines = py_split (strip block) [CHR 0x0A] in
        if length lines < 3 then None
        else let timestamp_line = lines ! 1 in
          if \<not> py_in ''-->'' timestamp_line then None
          else let (start_time, end_time) = parse_timestamp timestamp_line;
                   speaker_text = py_join '' '' (drop 2 lines);
                   (speaker, text) = extract_speaker_and_text speaker_text
               in if speaker \<noteq> [] \<and> text \<noteq> []
                  then Some \<lparr>start_time = start_time, end_time = end_time,
                              speaker = speaker, spoken = strip text\<rparr>
                  else None)"

fun parse_loop ::
  "string list \<Rightarrow> conversation list \<times> string fset \<Rightarrow> conversation list \<times> string fset" where
  "parse_loop [] acc = acc"
| "parse_loop (block # blocks) (convs, spks) =
     (case block_utterance block of
        None \<Rightarrow> parse_loop blocks (convs, spks)
      | Some conv \<Rightarrow> parse_loop blocks (convs @ [conv], finsert (speaker conv) spks))"

text \<open>
  The \<^verbatim>\<open>try\<close> block. \<open>open_read\<close> stands for \<^verbatim>\<open>open(file_path, 'r', encoding='utf-8')\<close>
  followed by \<^verbatim>\<open>file.read()\<close>: the decoded content, or the exception raised.
\<close>

definition parse_body ::
  "(string \<Rightarrow> py_error + string) \<Rightarrow> string \<Rightarrow> py_error + parsed_data" where
  "parse_body open_read path =
     (case open_read path of
        Inl e \<Rightarrow> Inl e
      | Inr content \<Rightarrow>
          (let blocks = py_split content [CHR 0x0A, CHR 0x0A];
               (conversations, speakers) = parse_loop blocks ([], {||})
           in Inr \<lparr>conversations = Some conversations,
                    speakers = Some speakers,
                    total_entries = Some (int (length conversations)),
                    file_path = Some path\<rparr>))"

text \<open>
  The method: \<^verbatim>\<open>except Exception\<close> prints and returns \<^verbatim>\<open>None\<close>. The result is \<open>Inl e\<close> when
  an exception leaves the method and \<open>Inr v\<close> when it returns \<open>v\<close>; the second component is
  the parser object after the call.
\<close>

definition parse_vtt_file ::
  "VTTParser \<Rightarrow> (string \<Rightarrow> py_error + string) \<Rightarrow> string
     \<Rightarrow> (py_error + parsed_data option) \<times> VTTParser" where
  "parse_vtt_file self open_read path =
     (case parse_body open_read path of
        Inl e \<Rightarrow> (Inr None, self)
      | Inr parsed \<Rightarrow> (Inr (Some parsed), self))"

section \<open>\<^verbatim>\<open>get_conversation_text\<close>\<close>

text \<open>\<^verbatim>\<open>not parsed_data\<close> on a dict: true exactly for the dict without keys.\<close>

definition dict_empty :: "parsed_data \<Rightarrow> bool" where
  "dict_empty d =
     (conversations d = None \<and> speakers d = None \<and> total_entries d = None \<and> file_path d = None)"

text \<open>
  The \<^verbatim>\<open>for conv in parsed_data['conversations']\<close> loop over the three locals
  \<^verbatim>\<open>text_blocks\<close>, \<^verbatim>\<open>current_speaker\<close> and \<^verbatim>\<open>current_text\<close>.
\<close>

definition append_block :: "string list \<Rightarrow> string \<Rightarrow> string \<Rightarrow> string list" where
  "append_block text_blocks current_speaker current_text =
     (if current_speaker \<noteq> [] \<and> current_text \<noteq> []
      then text_blocks @ [current_speaker @ '': '' @ current_text]
      else text_blocks)"

fun narrative_loop ::
  "conversation list \<Rightarrow> string list \<times> string \<times> string \<Rightarrow> string list \<times> string \<times> string" where
  "narrative_loop [] st = st"
| "narrative_loop (conv # convs) (text_blocks, current_speaker, current_text) =
     (if speaker conv = current_speaker
      then narrative_loop convs (text_blocks, current_speaker, current_text @ '' '' @ spoken conv)
      else narrative_loop convs
             (append_block text_blocks current_speaker current_text, speaker conv, spoken conv))"

text \<open>
  The subscript \<^verbatim>\<open>parsed_data['conversations']\<close> raises KeyError on a missing key; the
  guard before it returns first.
\<close>

definition get_conversation_text :: "parsed_data option \<Rightarrow> py_error + string" where
  "get_conversation_text parsed =
     (case parsed of
        None \<Rightarrow> Inr []
      | Some d \<Rightarrow>
          if dict_empty d \<or> conversations d = None then Inr []
          else (case conversations d of
                  None \<Rightarrow> Inl KeyError
                | Some convs \<Rightarrow>
                    (let (text_blocks, current_speaker, current_text) =
                           narrative_loop convs ([], [], [])
                     in Inr (py_join [CHR 0x0A, CHR 0x0A]
                               (append_block text_blocks current_speaker current_text)))))"

section \<open>\<^verbatim>\<open>get_meeting_stats\<close>\<close>

text \<open>
  A Python dict with string keys is an association list with distinct keys, in insertion
  order. \<open>dict_add\<close> is \<^verbatim>\<open>d[k] += n\<close> for a key that is present.
\<close>

definition dict_add :: "(string \<times> int) list \<Rightarrow> string \<Rightarrow> int \<Rightarrow> (string \<times> int) list" where
  "dict_add d k n = map (\<lambda>(k', v). if k' = k then (k', v + n) else (k', v)) d"

fun count_loop :: "conversation list \<Rightarrow> (string \<times> int) list \<Rightarrow> (string \<times> int) list" where
  "count_loop [] speaker_stats = speaker_stats"
| "count_loop (conv # convs) speaker_stats =
     (if speaker conv \<noteq> []
      then (let word_count = int (length (py_split_ws (spoken conv))) in
            if speaker conv \<in> fst ` set speaker_stats
            then count_loop convs (dict_add speaker_stats (speaker conv) word_count)
            else count_loop convs (speaker_stats @ [(speaker conv, word_count)]))
      else count_loop convs speaker_stats)"

datatype stat_value = StrV string | IntV int | DictV "(string \<times> int) list"

text \<open>
  \<^verbatim>\<open>conversations[0]\<close> and \<^verbatim>\<open>conversations[-1]\<close> raise IndexError on an empty list; the test
  \<^verbatim>\<open>if not conversations\<close> returns first. The result dict lists its keys in the order of
  the source's literal.
\<close>

definition get_meeting_stats :: "parsed_data option \<Rightarrow> py_error + (string \<times> stat_value) list" where
  "get_meeting_stats parsed =
     (case parsed of
        None \<Rightarrow> Inr []
      | Some d \<Rightarrow>
          if dict_empty d then Inr []
          else (let convs = (case conversations d of None \<Rightarrow> [] | Some cs \<Rightarrow> cs) in
                if convs = [] then Inr []
                else (case getitem convs 0 of
                        Inl e \<Rightarrow> Inl e
                      | Inr first \<Rightarrow>
                          (case getitem convs (- 1) of
                             Inl e \<Rightarrow> Inl e
                           | Inr final \<Rightarrow>
                               (let speaker_stats = count_loop convs [] in
                                Inr [(''duration'',
                                        StrV (start_time first @ '' to '' @ end_time final)),
                                     (''total_speakers'',
                                        IntV (int (fcard (case speakers d of
                                                            None \<Rightarrow> {||}
                                                          | Some spks \<Rightarrow> spks)))),
                                     (''total_entries'', IntV (int (length convs))),
                                     (''speaker_word_counts'', DictV speaker_stats)])))))"

text \<open>
  How the callers read the per-speaker counts:
  \<^verbatim>\<open>meeting_stats.get('speaker_word_counts', {})\<close> in \<^verbatim>\<open>gemini_summarizer.py\<close> and
  \<^verbatim>\<open>meeting_summarizer.py\<close>.
\<close>

definition speaker_word_counts_of :: "(string \<times> stat_value) list \<Rightarrow> (string \<times> int) list" where
  "speaker_word_counts_of stats =
     (case map_of stats ''speaker_word_counts'' of
        Some (DictV counts) \<Rightarrow> counts
      | _ \<Rightarrow> [])"

section \<open>Notions of the specification\<close>

text \<open>
  A parsed transcript as the specification's data model describes it: every key present,
  every utterance with a non-empty speaker and text, \<open>speakers\<close> the set of the utterances'
  speakers, \<open>total_entries\<close> their number. Every dict that \<^verbatim>\<open>parse_vtt_file\<close> returns is one
  (lemma \<open>parse_vtt_file_well_formed\<close>).
\<close>

definition well_formed :: "parsed_data \<Rightarrow> bool" where
  "well_formed d =
     (case (conversations d, speakers d, total_entries d, file_path d) of
        (Some convs, Some spks, Some n, Some p) \<Rightarrow>
          n = int (length convs) \<and> spks = fset_of_list (map speaker convs) \<and>
          list_all (\<lambda>c. speaker c \<noteq> [] \<and> spoken c \<noteq> []) convs
      | _ \<Rightarrow> False)"

text \<open>
  The turns of a transcript, following the specification's words: the maximal runs of
  consecutive utterances of one speaker, each with the texts of its utterances in order.
  \<open>turns_from\<close> carries the run being collected.
\<close>

fun turns_from :: "string \<times> string list \<Rightarrow> conversation list \<Rightarrow> (string \<times> string list) list" where
  "turns_from (s, ts) [] = [(s, ts)]"
| "turns_from (s, ts) (c # cs) =
     (if speaker c = s then turns_from (s, ts @ [spoken c]) cs
      else (s, ts) # turns_from (speaker c, [spoken c]) cs)"

fun turns :: "conversation list \<Rightarrow> (string \<times> string list) list" where
  "turns [] = []"
| "turns (c # cs) = turns_from (speaker c, [spoken c]) cs"

definition turn_line :: "string \<times> string list \<Rightarrow> string" where
  "turn_line t = fst t @ '': '' @ py_join '' '' (snd t)"

text \<open>
  The number of whitespace-delimited tokens of a text, following the specification's
  words: the number of characters that are not whitespace and stand at the start of the
  text or after a whitespace character.
\<close>

fun token_starts :: "bool \<Rightarrow> string \<Rightarrow> nat" where
  "token_starts after_space [] = 0"
| "token_starts after_space (c # cs) =
     (if \<not> isspace c \<and> after_space then 1 else 0) + token_starts (isspace c) cs"

definition token_count :: "string \<Rightarrow> nat" where
  "token_count s = token_starts True s"

text \<open>
  The words of a speaker in a transcript, following the specification's words: the sum,
  over that speaker's utterances, of the number of tokens of the utterance's text.
\<close>

definition words_of :: "string \<Rightarrow> conversation list \<Rightarrow> int" where
  "words_of s convs = (\<Sum>c\<leftarrow>filter (\<lambda>c. speaker c = s) convs. int (token_count (spoken c)))"

section \<open>Sample inputs\<close>

text \<open>A file system with no readable file, and one with a single file.\<close>

definition no_files :: "string \<Rightarrow> py_error + string" where
  "no_files path = Inl OSError"

definition one_file :: "string \<Rightarrow> string \<Rightarrow> string \<Rightarrow> py_error + string" where
  "one_file name content path = (if path = name then Inr content else Inl OSError)"

text \<open>
  A document with a header, three well-formed cues, an empty and a blank block, and a cue
  whose second line has no marker; and what the parser makes of it.
\<close>

definition sample_doc :: string where
  "sample_doc = ''WEBVTT\<newline>\<newline>1\<newline>00:00:05.640 --> 00:00:17.960\<newline>adam: Hello there\<newline>\<newline>2\<newline>00:00:18.000 --> 00:00:20.000\<newline>bob: hi\<newline>\<newline>\<newline>\<newline> \<newline>\<newline>3\<newline>00:00:21.000 --> 00:00:22.500\<newline>adam: one two three\<newline>\<newline>4\<newline>no marker here\<newline>eve: dropped''"

definition sample_convs :: "conversation list" where
  "sample_convs =
     [\<lparr>start_time = ''00:00:05.640'', end_time = ''00:00:17.960'', speaker = ''adam'',
        spoken = ''Hello there''\<rparr>,
      \<lparr>start_time = ''00:00:18.000'', end_time = ''00:00:20.000'', speaker = ''bob'',
        spoken = ''hi''\<rparr>,
      \<lparr>start_time = ''00:00:21.000'', end_time = ''00:00:22.500'', speaker = ''adam'',
        spoken = ''one two three''\<rparr>]"

definition sample_parsed :: parsed_data where
  "sample_parsed =
     \<lparr>conversations = Some sample_convs, speakers = Some {|''adam'', ''bob''|},
      total_entries = Some 3, file_path = Some ''m.vtt''\<rparr>"

text \<open>The transcript of the specification's example of turn merging.\<close>

definition turn_example :: parsed_data where
  "turn_example =
     \<lparr>conversations =
        Some [\<lparr>start_time = ''00:00:01.000'', end_time = ''00:00:02.000'', speaker = ''A'',
                spoken = ''hi''\<rparr>,
              \<lparr>start_time = ''00:00:02.000'', end_time = ''00:00:03.000'', speaker = ''A'',
                spoken = ''there''\<rparr>,
              \<lparr>start_time = ''00:00:03.000'', end_time = ''00:00:04.000'', speaker = ''B'',
                spoken = ''yo''\<rparr>],
      speakers = Some {|''A'', ''B''|}, total_entries = Some 3, file_path = Some ''t.vtt''\<rparr>"

section \<open>List indexing\<close>

lemma getitem_first: "xs \<noteq> [] \<Longrightarrow> getitem xs 0 = Inr (hd xs)"
  by (cases xs) (simp_all add: getitem_def)

lemma getitem_last: "xs \<noteq> [] \<Longrightarrow> getitem xs (- 1) = Inr (last xs)"
  by (cases xs rule: rev_cases) (simp_all add: getitem_def nth_append)

section \<open>Unreadable input\<close>

text \<open>
  C1, as the specification states it: a document that cannot be read makes the parse fail
  with a failure that is propagated to the caller. The method does not do so: with no
  readable file, \<^verbatim>\<open>open\<close> raises OSError, and \<^verbatim>\<open>parse_vtt_file\<close> returns \<^verbatim>\<open>None\<close> instead of
  letting the exception leave.
\<close>

theorem parse_read_failure_counterexample:
  "no_files ''missing.vtt'' = Inl OSError \<and>
   fst (parse_vtt_file init no_files ''missing.vtt'') = Inr None \<and>
   fst (parse_vtt_file init no_files ''missing.vtt'') \<noteq> Inl OSError"
  by (simp add: parse_vtt_file_def parse_body_def no_files_def)

text \<open>
  C1, amended: when the document cannot be read or decoded, \<^verbatim>\<open>parse_vtt_file\<close> catches the
  exception and returns \<^verbatim>\<open>None\<close>, leaving the parser object as it was; when the document
  can be read, it returns a dict with a \<^verbatim>\<open>conversations\<close> list, also when that list is
  empty. So the value returned on failure differs from every successful result.
\<close>

theorem parse_read_failure_returns_None:
  "(open_read path = Inl e \<longrightarrow> parse_vtt_file self open_read path = (Inr None, self)) \<and>
   (open_read path = Inr content \<longrightarrow>
      (\<exists>d convs. fst (parse_vtt_file self open_read path) = Inr (Some d) \<and>
         conversations d = Some convs))"
  by (simp add: parse_vtt_file_def parse_body_def Let_def split: prod.splits)

theorem parse_read_failure_returns_None_witness:
  "parse_vtt_file init no_files ''missing.vtt'' = (Inr None, init) \<and>
   fst (parse_vtt_file init (one_file ''empty.vtt'' []) ''empty.vtt'') =
     Inr (Some \<lparr>conversations = Some [], speakers = Some {||}, total_entries = Some 0,
                 file_path = Some ''empty.vtt''\<rparr>)"
  using parse_read_failure_returns_None
      [where open_read = no_files and path = "''missing.vtt''" and e = OSError and self = init]
    parse_read_failure_returns_None
      [where open_read = "one_file ''empty.vtt'' []" and path = "''empty.vtt''"
         and content = "[]" and self = init]
  by (simp add: no_files_def one_file_def parse_vtt_file_def parse_body_def py_split_def
      block_utterance_def strip_def lstrip_def rstrip_def)

section \<open>The reporting methods on the failure value\<close>

text \<open>
  C10: given \<^verbatim>\<open>None\<close>, or a dict without the key \<^verbatim>\<open>conversations\<close>,
  \<^verbatim>\<open>get_conversation_text\<close> returns the empty string and \<^verbatim>\<open>get_meeting_stats\<close> returns the
  empty dict; neither raises.
\<close>

theorem reporting_tolerates_failure_sentinel:
  "get_conversation_text None = Inr [] \<and> get_meeting_stats None = Inr [] \<and>
   (conversations d = None \<longrightarrow>
      get_conversation_text (Some d) = Inr [] \<and> get_meeting_stats (Some d) = Inr [])"
  by (simp add: get_conversation_text_def get_meeting_stats_def)

theorem reporting_tolerates_failure_sentinel_witness:
  "get_conversation_text (Some \<lparr>conversations = None, speakers = Some {|''adam''|},
       total_entries = Some 1, file_path = Some ''m.vtt''\<rparr>) = Inr [] \<and>
   get_meeting_stats (Some \<lparr>conversations = None, speakers = Some {|''adam''|},
       total_entries = Some 1, file_path = Some ''m.vtt''\<rparr>) = Inr []"
  using reporting_tolerates_failure_sentinel
    [of "\<lparr>conversations = None, speakers = Some {|''adam''|},
       total_entries = Some 1, file_path = Some ''m.vtt''\<rparr>"]
  by simp

section \<open>The reporting methods never raise\<close>

text \<open>
  C8: on every well-formed parsed transcript, the empty one included, both
  \<^verbatim>\<open>get_conversation_text\<close> and \<^verbatim>\<open>get_meeting_stats\<close> return a value: the KeyError and
  IndexError branches are not reached.
\<close>

theorem reporting_never_raises:
  assumes "well_formed d"
  shows "(\<exists>s. get_conversation_text (Some d) = Inr s) \<and>
         (\<exists>stats. get_meeting_stats (Some d) = Inr stats)"
proof -
  from assms obtain convs where c: "conversations d = Some convs"
    by (auto simp: well_formed_def split: option.splits)
  have "\<exists>s. get_conversation_text (Some d) = Inr s"
    using c by (simp add: get_conversation_text_def dict_empty_def split: prod.splits)
  moreover have "\<exists>stats. get_meeting_stats (Some d) = Inr stats"
    using c by (cases "convs = []")
      (simp_all add: get_meeting_stats_def dict_empty_def getitem_first getitem_last)
  ultimately show ?thesis by simp
qed

theorem reporting_never_raises_witness:
  "well_formed \<lparr>conversations = Some [], speakers = Some {||}, total_entries = Some 0,
       file_path = Some ''empty.vtt''\<rparr> \<and>
   get_conversation_text (Some \<lparr>conversations = Some [], speakers = Some {||},
       total_entries = Some 0, file_path = Some ''empty.vtt''\<rparr>) = Inr [] \<and>
   get_meeting_stats (Some \<lparr>conversations = Some [], speakers = Some {||},
       total_entries = Some 0, file_path = Some ''empty.vtt''\<rparr>) = Inr []"
  using reporting_never_raises [of "\<lparr>conversations = Some [], speakers = Some {||},
       total_entries = Some 0, file_path = Some ''empty.vtt''\<rparr>"]
  by (simp add: well_formed_def get_conversation_text_def get_meeting_stats_def dict_empty_def
      append_block_def)

section \<open>Trimming\<close>

lemma rstrip_fixed: "s \<noteq> [] \<Longrightarrow> \<not> isspace (last s) \<Longrightarrow> rstrip s = s"
  by (cases s rule: rev_cases) (simp_all add: rstrip_def)

lemma lstrip_fixed: "s \<noteq> [] \<Longrightarrow> \<not> isspace (hd s) \<Longrightarrow> lstrip s = s"
  by (cases s) (simp_all add: lstrip_def)

lemma lstrip_hd: "lstrip s \<noteq> [] \<Longrightarrow> \<not> isspace (hd (lstrip s))"
  unfolding lstrip_def by (rule hd_dropWhile)

lemma rstrip_last: "rstrip s \<noteq> [] \<Longrightarrow> \<not> isspace (last (rstrip s))"
  by (simp add: rstrip_def last_rev hd_dropWhile)

lemma rstrip_hd: "s \<noteq> [] \<Longrightarrow> \<not> isspace (hd s) \<Longrightarrow> rstrip s \<noteq> [] \<and> hd (rstrip s) = hd s"
  by (cases s) (auto simp: rstrip_def dropWhile_append)

lemma strip_ends:
  "strip s \<noteq> [] \<Longrightarrow> \<not> isspace (hd (strip s)) \<and> \<not> isspace (last (strip s))"
proof -
  assume ne: "strip s \<noteq> []"
  then have l: "lstrip s \<noteq> []"
    by (auto simp: strip_def rstrip_def)
  then have "\<not> isspace (hd (lstrip s))" by (rule lstrip_hd)
  with l have "hd (rstrip (lstrip s)) = hd (lstrip s)" by (simp add: rstrip_hd)
  with \<open>\<not> isspace (hd (lstrip s))\<close> ne show ?thesis
    by (simp add: strip_def rstrip_last)
qed

lemma strip_idem: "strip (strip s) = strip s"
proof (cases "strip s = []")
  case True
  moreover have "strip [] = []" by (simp add: strip_def lstrip_def rstrip_def)
  ultimately show ?thesis by simp
next
  case False
  with strip_ends [OF False] show ?thesis
    by (simp add: strip_def [of "strip s"] lstrip_fixed rstrip_fixed)
qed

lemma strip_Nil: "strip [] = []"
  by (simp add: strip_def lstrip_def rstrip_def)

section \<open>The parsing loop\<close>

lemma parse_loop_eq:
  "parse_loop blocks (convs, spks) =
     (convs @ List.map_filter block_utterance blocks,
      spks |\<union>| fset_of_list (map speaker (List.map_filter block_utterance blocks)))"
  by (induction blocks arbitrary: convs spks) (auto simp: map_filter_simps split: option.splits)

lemma block_utterance_Some:
  assumes "block_utterance block = Some u"
  shows "speaker u \<noteq> [] \<and> spoken u \<noteq> [] \<and> strip block \<noteq> [] \<and> strip block \<noteq> ''WEBVTT'' \<and>
    3 \<le> length (py_split (strip block) [CHR 0x0A]) \<and>
    py_in ''-->'' (py_split (strip block) [CHR 0x0A] ! 1) \<and>
    (start_time u, end_time u) = parse_timestamp (py_split (strip block) [CHR 0x0A] ! 1)"
  using assms
  by (auto simp: block_utterance_def Let_def extract_speaker_and_text_def strip_idem
      split: if_splits prod.splits option.splits)

lemma parse_body_Inr:
  "parse_body open_read path = Inr d \<longleftrightarrow>
     (\<exists>content. open_read path = Inr content \<and>
        d = \<lparr>conversations =
               Some (List.map_filter block_utterance (py_split content [CHR 0x0A, CHR 0x0A])),
             speakers = Some (fset_of_list (map speaker
               (List.map_filter block_utterance (py_split content [CHR 0x0A, CHR 0x0A])))),
             total_entries = Some (int (length
               (List.map_filter block_utterance (py_split content [CHR 0x0A, CHR 0x0A])))),
             file_path = Some path\<rparr>)"
  by (auto simp: parse_body_def parse_loop_eq Let_def split: sum.splits)

lemma parse_vtt_file_Some:
  "fst (parse_vtt_file self open_read path) = Inr (Some d) \<longleftrightarrow> parse_body open_read path = Inr d"
  by (simp add: parse_vtt_file_def split: sum.splits)

lemma length_map_filter_le:
  "(\<And>x y. f x = Some y \<Longrightarrow> P x) \<Longrightarrow> length (List.map_filter f xs) \<le> length (filter P xs)"
  by (induction xs) (auto simp: map_filter_simps split: option.splits)

lemma length_filter_mono:
  "(\<And>x. P x \<Longrightarrow> Q x) \<Longrightarrow> length (filter P xs) \<le> length (filter Q xs)"
  by (induction xs) auto

lemma split_from_nonempty: "split_from sep piece s \<noteq> []"
  by (induction sep piece s rule: split_from.induct) auto

lemma split_from_parts:
  "sep \<noteq> [] \<Longrightarrow> 2 \<le> length (split_from sep piece s) \<longleftrightarrow> py_in sep s"
proof (induction sep piece s rule: split_from.induct)
  case (1 sep piece)
  then show ?case by simp
next
  case (2 sep piece c cs)
  show ?case
  proof (cases "take (length sep) (c # cs) = sep")
    case True
    with 2 split_from_nonempty [of sep "[]" "drop (length sep) (c # cs)"] show ?thesis
      by (cases "split_from sep [] (drop (length sep) (c # cs))") auto
  next
    case False
    with 2 show ?thesis by simp
  qed
qed

lemma py_split_parts: "sep \<noteq> [] \<Longrightarrow> 2 \<le> length (py_split s sep) \<longleftrightarrow> py_in sep s"
  by (simp add: py_split_def split_from_parts)

lemma parse_timestamp_parts:
  "parse_timestamp timestamp_line =
     (if 2 \<le> length (py_split timestamp_line '' --> '')
      then (strip (py_split timestamp_line '' --> '' ! 0),
            strip (py_split timestamp_line '' --> '' ! 1))
      else ([], []))"
  by (auto simp: parse_timestamp_def getitem_def Let_def)

lemma sample_parse:
  "fst (parse_vtt_file init (one_file ''m.vtt'' sample_doc) ''m.vtt'') = Inr (Some sample_parsed)"
  by code_simp

section \<open>Speakers and order of the utterances\<close>

text \<open>
  C3: for every successfully parsed document, the \<open>speakers\<close> of the result are exactly the
  speaker values of its utterances, and the utterances are those of the document's blocks
  in the order of the blocks.
\<close>

theorem parse_speakers_and_order:
  assumes "fst (parse_vtt_file self open_read path) = Inr (Some d)"
  shows "\<exists>content convs spks.
           open_read path = Inr content \<and> conversations d = Some convs \<and>
           speakers d = Some spks \<and> fset spks = speaker ` set convs \<and>
           convs = List.map_filter block_utterance (py_split content [CHR 0x0A, CHR 0x0A])"
  using assms by (auto simp: parse_vtt_file_Some parse_body_Inr fset_of_list.rep_eq)

theorem parse_speakers_and_order_witness:
  "fst (parse_vtt_file init (one_file ''m.vtt'' sample_doc) ''m.vtt'') = Inr (Some sample_parsed) \<and>
   (\<exists>content convs spks.
      one_file ''m.vtt'' sample_doc ''m.vtt'' = Inr content \<and>
      conversations sample_parsed = Some convs \<and> speakers sample_parsed = Some spks \<and>
      fset spks = speaker ` set convs \<and>
      convs = List.map_filter block_utterance (py_split content [CHR 0x0A, CHR 0x0A]))"
  using sample_parse parse_speakers_and_order [OF sample_parse] by simp

section \<open>At most one utterance for each block\<close>

text \<open>
  C7: for every readable document, the number of utterances of the parse result is at most
  the number of blocks (the pieces between blank lines) that are not blank, which is at
  most the number of blocks that are not empty.
\<close>

theorem utterances_at_most_blocks:
  assumes "open_read path = Inr content"
  shows "\<exists>d convs.
           fst (parse_vtt_file self open_read path) = Inr (Some d) \<and>
           conversations d = Some convs \<and>
           length convs \<le>
             length (filter (\<lambda>block. strip block \<noteq> []) (py_split content [CHR 0x0A, CHR 0x0A])) \<and>
           length (filter (\<lambda>block. strip block \<noteq> []) (py_split content [CHR 0x0A, CHR 0x0A])) \<le>
             length (filter (\<lambda>block. block \<noteq> []) (py_split content [CHR 0x0A, CHR 0x0A]))"
proof -
  let ?blocks = "py_split content [CHR 0x0A, CHR 0x0A]"
  obtain d where d: "parse_body open_read path = Inr d"
    and c: "conversations d = Some (List.map_filter block_utterance ?blocks)"
    using assms by (auto simp: parse_body_Inr)
  have "length (List.map_filter block_utterance ?blocks)
          \<le> length (filter (\<lambda>block. strip block \<noteq> []) ?blocks)"
    by (rule length_map_filter_le) (simp add: block_utterance_Some)
  moreover have "length (filter (\<lambda>block. strip block \<noteq> []) ?blocks)
          \<le> length (filter (\<lambda>block. block \<noteq> []) ?blocks)"
    by (rule length_filter_mono) (auto simp: strip_Nil)
  ultimately show ?thesis
    using d c by (auto simp: parse_vtt_file_Some)
qed

theorem utterances_at_most_blocks_witness:
  "one_file ''m.vtt'' sample_doc ''m.vtt'' = Inr sample_doc \<and>
   fst (parse_vtt_file init (one_file ''m.vtt'' sample_doc) ''m.vtt'') = Inr (Some sample_parsed) \<and>
   conversations sample_parsed = Some sample_convs \<and>
   length sample_convs = 3 \<and>
   length (filter (\<lambda>block. strip block \<noteq> []) (py_split sample_doc [CHR 0x0A, CHR 0x0A])) = 5 \<and>
   length (filter (\<lambda>block. block \<noteq> []) (py_split sample_doc [CHR 0x0A, CHR 0x0A])) = 6"
proof -
  have h: "one_file ''m.vtt'' sample_doc ''m.vtt'' = Inr sample_doc"
    by (simp add: one_file_def)
  have "length sample_convs = 3 \<and>
    length (filter (\<lambda>block. strip block \<noteq> []) (py_split sample_doc [CHR 0x0A, CHR 0x0A])) = 5 \<and>
    length (filter (\<lambda>block. block \<noteq> []) (py_split sample_doc [CHR 0x0A, CHR 0x0A])) = 6"
    by code_simp
  then show ?thesis
    using h sample_parse utterances_at_most_blocks
      [where self = init and open_read = "one_file ''m.vtt'' sample_doc" and path = "''m.vtt''"
         and content = sample_doc, OF h]
    by (simp add: sample_parsed_def)
qed

section \<open>The timestamp line\<close>

text \<open>
  C2: a block whose timestamp line does not split on \<^verbatim>\<open>' --> '\<close> into two parts is to be
  skipped, and no utterance with an empty \<^verbatim>\<open>start_time\<close> or \<^verbatim>\<open>end_time\<close> is to be emitted.
  The guard of \<^verbatim>\<open>parse_vtt_file\<close> tests for \<^verbatim>\<open>-->\<close> without the spaces that
  \<^verbatim>\<open>_parse_timestamp\<close> splits on. On the line \<^verbatim>\<open>00:01-->00:02\<close> the guard lets the block
  pass, the split yields one part, and the method emits an utterance whose two times are
  empty; \<^verbatim>\<open>get_meeting_stats\<close> then reports the duration \<^verbatim>\<open>' to '\<close>.
\<close>

theorem unspaced_marker_passes_guard:
  "py_in ''-->'' ''00:01-->00:02'' \<and>
   py_split ''00:01-->00:02'' '' --> '' = [''00:01-->00:02''] \<and>
   parse_timestamp ''00:01-->00:02'' = ([], []) \<and>
   fst (parse_vtt_file init (one_file ''m.vtt'' ''1\<newline>00:01-->00:02\<newline>adam: hi'') ''m.vtt'') =
     Inr (Some \<lparr>conversations =
                   Some [\<lparr>start_time = [], end_time = [], speaker = ''adam'', spoken = ''hi''\<rparr>],
                 speakers = Some {|''adam''|}, total_entries = Some 1,
                 file_path = Some ''m.vtt''\<rparr>) \<and>
   get_meeting_stats
     (Some \<lparr>conversations =
              Some [\<lparr>start_time = [], end_time = [], speaker = ''adam'', spoken = ''hi''\<rparr>],
            speakers = Some {|''adam''|}, total_entries = Some 1,
            file_path = Some ''m.vtt''\<rparr>) =
     Inr [(''duration'', StrV '' to ''), (''total_speakers'', IntV 1),
          (''total_entries'', IntV 1), (''speaker_word_counts'', DictV [(''adam'', 1)])]"
  by code_simp

section \<open>Well-formed transcripts\<close>

lemma well_formed_fields:
  "well_formed d \<longleftrightarrow>
     (\<exists>convs p. conversations d = Some convs \<and> speakers d = Some (fset_of_list (map speaker convs)) \<and>
        total_entries d = Some (int (length convs)) \<and> file_path d = Some p \<and>
        list_all (\<lambda>c. speaker c \<noteq> [] \<and> spoken c \<noteq> []) convs)"
  by (auto simp: well_formed_def split: option.splits)

lemma list_all_map_filter:
  "(\<And>x y. f x = Some y \<Longrightarrow> P y) \<Longrightarrow> list_all P (List.map_filter f xs)"
  by (induction xs) (auto simp: map_filter_simps split: option.splits)

lemma parse_body_well_formed: "parse_body open_read path = Inr d \<Longrightarrow> well_formed d"
  by (auto simp: parse_body_Inr well_formed_def intro!: list_all_map_filter
      dest: block_utterance_Some)

lemma parse_vtt_file_well_formed:
  "fst (parse_vtt_file self open_read path) = Inr (Some d) \<Longrightarrow> well_formed d"
  by (simp add: parse_vtt_file_Some parse_body_well_formed)

lemma sample_well_formed: "well_formed sample_parsed"
  by (auto simp: well_formed_def sample_parsed_def sample_convs_def)

lemma turn_example_well_formed: "well_formed turn_example"
  by (simp add: turn_example_def well_formed_def)

section \<open>Turns\<close>

lemma py_join_snoc: "xs \<noteq> [] \<Longrightarrow> py_join sep (xs @ [x]) = py_join sep xs @ sep @ x"
  by (induction sep xs rule: py_join.induct) auto

lemma py_join_nonempty: "x \<noteq> [] \<Longrightarrow> py_join sep (x # xs) \<noteq> []"
  by (cases xs) auto

lemma append_block_Nil: "append_block text_blocks [] current_text = text_blocks"
  by (simp add: append_block_def)

lemma narrative_loop_turns:
  assumes "list_all (\<lambda>c. speaker c \<noteq> [] \<and> spoken c \<noteq> []) convs"
    and "s \<noteq> []" and "ts \<noteq> []" and "hd ts \<noteq> []"
  shows "(case narrative_loop convs (text_blocks, s, py_join '' '' ts) of
            (tb, cs, ct) \<Rightarrow> append_block tb cs ct) =
         text_blocks @ map turn_line (turns_from (s, ts) convs)"
  using assms
proof (induction convs arbitrary: text_blocks s ts)
  case Nil
  then have "py_join '' '' ts \<noteq> []"
    by (cases ts) (simp_all add: py_join_nonempty)
  with Nil show ?case by (simp add: append_block_def turn_line_def)
next
  case (Cons c convs)
  have j: "py_join '' '' ts \<noteq> []"
    using Cons.prems by (cases ts) (simp_all add: py_join_nonempty)
  show ?case
  proof (cases "speaker c = s")
    case True
    have "py_join '' '' ts @ '' '' @ spoken c = py_join '' '' (ts @ [spoken c])"
      using Cons.prems by (simp add: py_join_snoc)
    with True Cons.IH [of s "ts @ [spoken c]" text_blocks] Cons.prems
    show ?thesis by simp
  next
    case False
    with Cons.IH [of "speaker c" "[spoken c]" "text_blocks @ [turn_line (s, ts)]"] Cons.prems j
    show ?thesis by (simp add: append_block_def turn_line_def)
  qed
qed

lemma turns_from_concat:
  "concat (map (\<lambda>t. map (Pair (fst t)) (snd t)) (turns_from (s, ts) convs)) =
     map (Pair s) ts @ map (\<lambda>c. (speaker c, spoken c)) convs"
  by (induction convs arbitrary: s ts) auto

lemma turns_concat:
  "concat (map (\<lambda>t. map (Pair (fst t)) (snd t)) (turns convs)) =
     map (\<lambda>c. (speaker c, spoken c)) convs"
  by (cases convs) (simp_all add: turns_from_concat)

lemma turns_from_hd: "fst (hd (turns_from (s, ts) convs)) = s \<and> turns_from (s, ts) convs \<noteq> []"
  by (induction convs arbitrary: s ts) auto

lemma turns_from_distinct_adj: "distinct_adj (map fst (turns_from (s, ts) convs))"
proof (induction convs arbitrary: s ts)
  case Nil
  show ?case by simp
next
  case (Cons c convs)
  show ?case
  proof (cases "speaker c = s")
    case True
    with Cons.IH [of s "ts @ [spoken c]"] show ?thesis by simp
  next
    case False
    with Cons.IH [of "speaker c" "[spoken c]"] turns_from_hd [of "speaker c" "[spoken c]" convs]
    show ?thesis by (auto simp: distinct_adj_Cons hd_map)
  qed
qed

lemma turns_distinct_adj: "distinct_adj (map fst (turns convs))"
  by (cases convs) (simp_all add: turns_from_distinct_adj)

lemma turns_from_nonempty: "ts \<noteq> [] \<Longrightarrow> [] \<notin> snd ` set (turns_from (s, ts) convs)"
  by (induction convs arbitrary: s ts) auto

lemma turns_nonempty: "[] \<notin> snd ` set (turns convs)"
  by (cases convs) (simp_all add: turns_from_nonempty)

section \<open>The narrative merges turns\<close>

text \<open>
  C4: on every well-formed parsed transcript, \<^verbatim>\<open>get_conversation_text\<close> returns the lines
  \<^verbatim>\<open>speaker: texts\<close> of the transcript's turns, the texts of a turn joined by single spaces
  and the lines joined by a blank line, where the turns are the maximal runs of
  consecutive utterances of one speaker: put end to end they give back the utterances,
  neighbouring turns differ in speaker, and no turn is empty. On the transcript without
  utterances it returns the empty string. The instance after the theorem is the
  specification's example, (A, hi), (A, there), (B, yo), giving \<^verbatim>\<open>A: hi there\<close>, a blank
  line, \<^verbatim>\<open>B: yo\<close>.
\<close>

theorem conversation_text_merges_turns:
  assumes "well_formed d" and "conversations d = Some convs"
  shows "get_conversation_text (Some d) =
           Inr (py_join [CHR 0x0A, CHR 0x0A] (map turn_line (turns convs))) \<and>
         concat (map (\<lambda>t. map (Pair (fst t)) (snd t)) (turns convs)) =
           map (\<lambda>c. (speaker c, spoken c)) convs \<and>
         distinct_adj (map fst (turns convs)) \<and> [] \<notin> snd ` set (turns convs) \<and>
         (convs = [] \<longrightarrow> get_conversation_text (Some d) = Inr [])"
proof -
  from assms have wf: "list_all (\<lambda>c. speaker c \<noteq> [] \<and> spoken c \<noteq> []) convs"
    by (auto simp: well_formed_fields)
  have "get_conversation_text (Some d) =
          Inr (py_join [CHR 0x0A, CHR 0x0A] (map turn_line (turns convs)))"
  proof (cases convs)
    case Nil
    with assms(2) show ?thesis
      by (simp add: get_conversation_text_def dict_empty_def append_block_def)
  next
    case (Cons c cs)
    with wf have "(case narrative_loop cs ([], speaker c, py_join '' '' [spoken c]) of
            (tb, cs, ct) \<Rightarrow> append_block tb cs ct) =
         [] @ map turn_line (turns_from (speaker c, [spoken c]) cs)"
      by (intro narrative_loop_turns) simp_all
    with Cons wf assms(2) show ?thesis
      by (auto simp: get_conversation_text_def dict_empty_def append_block_Nil
          split: prod.splits)
  qed
  moreover have "convs = [] \<longrightarrow> get_conversation_text (Some d) = Inr []"
    using assms(2) by (simp add: get_conversation_text_def dict_empty_def append_block_def)
  ultimately show ?thesis
    by (simp add: turns_concat turns_distinct_adj turns_nonempty)
qed

theorem conversation_text_merges_turns_witness:
  "well_formed turn_example \<and>
   get_conversation_text (Some turn_example) = Inr ''A: hi there\<newline>\<newline>B: yo'' \<and>
   map_option turns (conversations turn_example) =
     Some [(''A'', [''hi'', ''there'']), (''B'', [''yo''])]"
proof -
  have c: "conversations turn_example = Some (the (conversations turn_example))"
    by (simp add: turn_example_def)
  have "get_conversation_text (Some turn_example) = Inr ''A: hi there\<newline>\<newline>B: yo'' \<and>
    map_option turns (conversations turn_example) =
      Some [(''A'', [''hi'', ''there'']), (''B'', [''yo''])]"
    using conversation_text_merges_turns [OF turn_example_well_formed c]
    by (simp add: turn_example_def turn_line_def)
  with turn_example_well_formed show ?thesis by simp
qed

section \<open>Counting words\<close>

lemma split_ws_from_length:
  "length (split_ws_from piece s) =
     (if piece = [] then token_starts True s else 1 + token_starts False s)"
  by (induction s arbitrary: piece) auto

lemma py_split_ws_token_count: "length (py_split_ws s) = token_count s"
  by (simp add: py_split_ws_def token_count_def split_ws_from_length)

lemma dict_add_keys: "map fst (dict_add d k n) = map fst d"
  by (induction d) (auto simp: dict_add_def)

lemma dict_add_key_set: "fst ` set (dict_add d k n) = fst ` set d"
  using dict_add_keys [of d k n] by (metis list.set_map)

lemma map_of_dict_add:
  "map_of (dict_add d k n) k' =
     (if k' = k then map_option (\<lambda>v. v + n) (map_of d k) else map_of d k')"
  by (induction d) (auto simp: dict_add_def)

lemma count_loop_keys:
  "list_all (\<lambda>c. speaker c \<noteq> []) convs \<Longrightarrow>
   fst ` set (count_loop convs stats) = fst ` set stats \<union> speaker ` set convs"
proof (induction convs arbitrary: stats)
  case Nil
  show ?case by simp
next
  case (Cons c convs)
  then show ?case by (auto simp: Let_def dict_add_key_set)
qed

lemma count_loop_distinct:
  "distinct (map fst stats) \<Longrightarrow> distinct (map fst (count_loop convs stats))"
  by (induction convs arbitrary: stats) (auto simp: Let_def dict_add_keys)

lemma words_of_Cons:
  "words_of s (c # convs) =
     (if speaker c = s then int (token_count (spoken c)) + words_of s convs
      else words_of s convs)"
  by (simp add: words_of_def)

lemma map_of_new_key:
  "k \<notin> fst ` set d \<Longrightarrow> map_of (d @ [(k, n)]) k' = (if k' = k then Some n else map_of d k')"
  by (induction d) auto

lemma count_loop_lookup:
  "list_all (\<lambda>c. speaker c \<noteq> []) convs \<Longrightarrow>
   map_of (count_loop convs stats) s =
     (if s \<in> fst ` set stats \<union> speaker ` set convs
      then Some ((case map_of stats s of None \<Rightarrow> 0 | Some v \<Rightarrow> v) + words_of s convs)
      else None)"
proof (induction convs arbitrary: stats)
  case Nil
  show ?case
    by (auto simp: words_of_def map_of_eq_None_iff split: option.splits)
next
  case (Cons c convs)
  let ?n = "int (length (py_split_ws (spoken c)))"
  from Cons.prems have ne: "speaker c \<noteq> []" and rest: "list_all (\<lambda>c. speaker c \<noteq> []) convs"
    by simp_all
  have n: "?n = int (token_count (spoken c))"
    by (simp add: py_split_ws_token_count)
  show ?case
  proof (cases "speaker c \<in> fst ` set stats")
    case True
    then obtain v where v: "map_of stats (speaker c) = Some v"
      by (metis map_of_eq_None_iff not_Some_eq)
    from True ne have step: "count_loop (c # convs) stats =
        count_loop convs (dict_add stats (speaker c) ?n)"
      by (simp add: Let_def)
    show ?thesis
      unfolding step Cons.IH [OF rest] dict_add_key_set map_of_dict_add words_of_Cons n
      using True v by (auto split: option.splits)
  next
    case False
    then have v: "map_of stats (speaker c) = None"
      by (simp add: map_of_eq_None_iff)
    have k: "fst ` set (stats @ [(speaker c, n')]) = insert (speaker c) (fst ` set stats)" for n'
      by simp
    from False ne have step: "count_loop (c # convs) stats =
        count_loop convs (stats @ [(speaker c, ?n)])"
      by (simp add: Let_def)
    show ?thesis
      unfolding step Cons.IH [OF rest] k map_of_new_key [OF False] words_of_Cons n
      using v by (auto split: option.splits)
  qed
qed

lemma get_meeting_stats_nonempty:
  assumes "conversations d = Some convs" and "convs \<noteq> []"
  shows "get_meeting_stats (Some d) =
     Inr [(''duration'', StrV (start_time (hd convs) @ '' to '' @ end_time (last convs))),
          (''total_speakers'',
             IntV (int (fcard (case speakers d of None \<Rightarrow> {||} | Some spks \<Rightarrow> spks)))),
          (''total_entries'', IntV (int (length convs))),
          (''speaker_word_counts'', DictV (count_loop convs []))]"
  using assms
  by (simp add: get_meeting_stats_def dict_empty_def getitem_first getitem_last)

lemma get_meeting_stats_empty:
  "conversations d = Some [] \<Longrightarrow> get_meeting_stats (Some d) = Inr []"
  by (simp add: get_meeting_stats_def)

section \<open>The statistics\<close>

text \<open>
  C5: on a well-formed parsed transcript with at least one utterance, \<^verbatim>\<open>get_meeting_stats\<close>
  returns the dict with exactly the keys \<^verbatim>\<open>duration\<close>, \<^verbatim>\<open>total_speakers\<close>, \<^verbatim>\<open>total_entries\<close>
  and \<^verbatim>\<open>speaker_word_counts\<close>, where \<^verbatim>\<open>duration\<close> is the first utterance's start time,
  \<^verbatim>\<open>' to '\<close> and the last utterance's end time, \<^verbatim>\<open>total_entries\<close> is the number of utterances
  and \<^verbatim>\<open>total_speakers\<close> the number of distinct speakers; on a transcript without
  utterances it returns the empty dict.
\<close>

theorem meeting_stats_contents:
  assumes "well_formed d" and "conversations d = Some convs"
  shows "(convs = [] \<longrightarrow> get_meeting_stats (Some d) = Inr []) \<and>
         (convs \<noteq> [] \<longrightarrow>
            (\<exists>counts. get_meeting_stats (Some d) =
               Inr [(''duration'',
                       StrV (start_time (hd convs) @ '' to '' @ end_time (last convs))),
                    (''total_speakers'', IntV (int (card (speaker ` set convs)))),
                    (''total_entries'', IntV (int (length convs))),
                    (''speaker_word_counts'', DictV counts)]))"
proof -
  from assms have "speakers d = Some (fset_of_list (map speaker convs))"
    by (auto simp: well_formed_fields)
  then have "fcard (case speakers d of None \<Rightarrow> {||} | Some spks \<Rightarrow> spks) =
      card (speaker ` set convs)"
    by (simp add: fcard.rep_eq fset_of_list.rep_eq)
  with assms(2) show ?thesis
    by (auto simp: get_meeting_stats_empty get_meeting_stats_nonempty)
qed

theorem meeting_stats_contents_witness:
  "well_formed sample_parsed \<and> conversations sample_parsed = Some sample_convs \<and>
   get_meeting_stats (Some sample_parsed) =
     Inr [(''duration'', StrV ''00:00:05.640 to 00:00:22.500''),
          (''total_speakers'', IntV 2),
          (''total_entries'', IntV 3),
          (''speaker_word_counts'', DictV [(''adam'', 5), (''bob'', 1)])] \<and>
   get_meeting_stats (Some \<lparr>conversations = Some [], speakers = Some {||},
       total_entries = Some 0, file_path = Some ''empty.vtt''\<rparr>) = Inr []"
proof -
  have w: "well_formed sample_parsed"
    by (rule sample_well_formed)
  have c: "conversations sample_parsed = Some sample_convs"
    by (simp add: sample_parsed_def)
  have w0: "well_formed \<lparr>conversations = Some [], speakers = Some {||},
       total_entries = Some 0, file_path = Some ''empty.vtt''\<rparr>"
    by (simp add: well_formed_def)
  have e: "get_meeting_stats (Some sample_parsed) =
     Inr [(''duration'', StrV ''00:00:05.640 to 00:00:22.500''),
          (''total_speakers'', IntV 2),
          (''total_entries'', IntV 3),
          (''speaker_word_counts'', DictV [(''adam'', 5), (''bob'', 1)])]"
    by (simp add: sample_parsed_def sample_convs_def get_meeting_stats_def dict_empty_def
        getitem_def py_split_ws_def isspace_def dict_add_def fcard_finsert_if)
  have e0: "get_meeting_stats (Some \<lparr>conversations = Some [], speakers = Some {||},
       total_entries = Some 0, file_path = Some ''empty.vtt''\<rparr>) = Inr []"
    using meeting_stats_contents [OF w0, of "[]"] by simp
  from meeting_stats_contents [OF w c] e e0 w c show ?thesis by simp
qed

text \<open>
  C6: on every well-formed parsed transcript, the per-speaker counts of
  \<^verbatim>\<open>get_meeting_stats\<close> have the transcript's speakers as their keys, each once, and map
  each speaker to the sum, over that speaker's utterances, of the number of
  whitespace-delimited tokens of the text. The counts are read as the callers read them:
  the value at the key \<^verbatim>\<open>speaker_word_counts\<close>, which is present exactly when the transcript
  has an utterance, and the empty dict otherwise. In the instance after the theorem the
  text \<^verbatim>\<open>one two three\<close> counts 3.
\<close>

theorem speaker_word_counts_sums:
  assumes "well_formed d" and "conversations d = Some convs" and "speakers d = Some spks"
  shows "\<exists>stats. get_meeting_stats (Some d) = Inr stats \<and>
           map_of stats ''speaker_word_counts'' =
             (if convs = [] then None else Some (DictV (speaker_word_counts_of stats))) \<and>
           fst ` set (speaker_word_counts_of stats) = fset spks \<and>
           distinct (map fst (speaker_word_counts_of stats)) \<and>
           (\<forall>s. map_of (speaker_word_counts_of stats) s =
                  (if s \<in> fset spks then Some (words_of s convs) else None))"
proof (cases "convs = []")
  case True
  with assms have "fset spks = {}"
    by (auto simp: well_formed_fields)
  with True assms(2) show ?thesis
    by (simp add: get_meeting_stats_empty speaker_word_counts_of_def)
next
  case False
  from assms have spks: "fset spks = speaker ` set convs"
    and ne: "list_all (\<lambda>c. speaker c \<noteq> []) convs"
    by (auto simp: well_formed_fields fset_of_list.rep_eq list_all_iff)
  let ?stats = "[(''duration'', StrV (start_time (hd convs) @ '' to '' @ end_time (last convs))),
          (''total_speakers'',
             IntV (int (fcard (case speakers d of None \<Rightarrow> {||} | Some spks \<Rightarrow> spks)))),
          (''total_entries'', IntV (int (length convs))),
          (''speaker_word_counts'', DictV (count_loop convs []))]"
  have "get_meeting_stats (Some d) = Inr ?stats"
    using assms(2) False by (rule get_meeting_stats_nonempty)
  moreover have "speaker_word_counts_of ?stats = count_loop convs []"
    by (simp add: speaker_word_counts_of_def)
  moreover have "map_of ?stats ''speaker_word_counts'' = Some (DictV (count_loop convs []))"
    by simp
  moreover have "fst ` set (count_loop convs []) = fset spks"
    using count_loop_keys [OF ne, of "[]"] spks by simp
  moreover have "distinct (map fst (count_loop convs []))"
    by (rule count_loop_distinct) simp
  moreover have "map_of (count_loop convs []) s =
      (if s \<in> fset spks then Some (words_of s convs) else None)" for s
    using count_loop_lookup [OF ne, of "[]" s] spks by simp
  ultimately show ?thesis using False by simp
qed

theorem speaker_word_counts_sums_witness:
  "well_formed sample_parsed \<and> conversations sample_parsed = Some sample_convs \<and>
   speakers sample_parsed = Some {|''adam'', ''bob''|} \<and>
   (case get_meeting_stats (Some sample_parsed) of
      Inl e \<Rightarrow> [] | Inr stats \<Rightarrow> speaker_word_counts_of stats) =
     [(''adam'', 5), (''bob'', 1)] \<and>
   words_of ''adam'' sample_convs = 5 \<and> words_of ''bob'' sample_convs = 1 \<and>
   token_count ''one two three'' = 3 \<and> length (py_split_ws ''one two three'') = 3"
proof -
  have c: "conversations sample_parsed = Some sample_convs"
    and s: "speakers sample_parsed = Some {|''adam'', ''bob''|}"
    by (simp_all add: sample_parsed_def)
  have "(case get_meeting_stats (Some sample_parsed) of
      Inl e \<Rightarrow> [] | Inr stats \<Rightarrow> speaker_word_counts_of stats) =
     [(''adam'', 5), (''bob'', 1)] \<and>
   words_of ''adam'' sample_convs = 5 \<and> words_of ''bob'' sample_convs = 1 \<and>
   token_count ''one two three'' = 3 \<and> length (py_split_ws ''one two three'') = 3"
    using speaker_word_counts_sums [OF sample_well_formed c s]
    by (simp add: sample_parsed_def sample_convs_def get_meeting_stats_def dict_empty_def
        getitem_def py_split_ws_def isspace_def dict_add_def speaker_word_counts_of_def
        words_of_def token_count_def)
  with sample_well_formed c s show ?thesis by simp
qed

end
